theory Spec2Isabelle
  imports Main "HOL-Library.Sublist" "HOL-Library.Code_Target_Nat"
begin

section \<open>Tree states, store states and the version allocator of Recoil\<close>

text \<open>
  The module \<^verbatim>\<open>src/core/Recoil_State.js\<close> exports four functions:
  \<^verbatim>\<open>getNextTreeStateVersion\<close>, \<^verbatim>\<open>makeEmptyTreeState\<close>, \<^verbatim>\<open>makeStoreState\<close> and
  \<^verbatim>\<open>makeEmptyStoreState\<close>. They read and write one module-level variable
  (\<^verbatim>\<open>let nextTreeStateVersion = 0\<close>) and they allocate JavaScript objects, which
  have identity and are shared by reference. The embedding therefore passes an explicit
  runtime state: the module variable and a heap of objects. A reference is an index
  into the heap; \<^verbatim>\<open>new Set()\<close>, \<^verbatim>\<open>new Map()\<close>, \<^verbatim>\<open>[]\<close>, \<^verbatim>\<open>{}\<close> and every object literal
  append one object to it.
\<close>

subsection \<open>Values and objects\<close>

type_synonym ref = nat

text \<open>
  \<^verbatim>\<open>Version\<close> is imported from \<^verbatim>\<open>Recoil_Keys\<close> and is a JavaScript number. The
  allocator only produces the non-negative integers from 0 on, so a version is a
  natural number here; what double-precision arithmetic does to the increment is
  written out in \<open>js_increment\<close> below.
\<close>

type_synonym Version = nat

type_synonym NodeKey = string

datatype js_value =
    VUndefined
  | VNull
  | VBool bool
  | VNumber nat
  | VString string
  | VRef ref

text \<open>
  \<^verbatim>\<open>TreeState\<close>, lines 28 to 37 of the source. The four fields after the version hold
  references to a plain object, a \<^verbatim>\<open>Set\<close> and two \<^verbatim>\<open>Map\<close>s.
\<close>

record TreeState =
  version :: Version
  transactionMetadata :: ref
  dirtyAtoms :: ref
  atomValues :: ref
  nonvalidatedAtoms :: ref

text \<open>
  \<^verbatim>\<open>StoreState\<close>, lines 43 to 94 of the source. \<^verbatim>\<open>nextTree: null | TreeState\<close> is an
  optional reference; every other field is a reference.
\<close>

record StoreState =
  currentTree :: ref
  nextTree :: "ref option"
  knownAtoms :: ref
  knownSelectors :: ref
  versionsUsedByComponent :: ref
  nodeToComponentSubscriptions :: ref
  graphsByVersion :: ref
  transactionSubscriptions :: ref
  nodeTransactionSubscriptions :: ref
  queuedComponentCallbacks :: ref
  suspendedComponentResolvers :: ref

text \<open>
  The dependency graph of one version: edges from a dependency to its dependents,
  over a set of node keys. The type \<^verbatim>\<open>Graph\<close> is declared in \<^verbatim>\<open>Recoil_GraphTypes\<close>.
\<close>

record Graph =
  graph_nodes :: "NodeKey list"
  graph_edges :: "(NodeKey \<times> NodeKey) list"

text \<open>
  Heap objects. A \<^verbatim>\<open>Set\<close> and an array keep their elements in insertion order, a
  \<^verbatim>\<open>Map\<close> its entries; a plain object its properties. \<open>ForeignObj\<close> stands for an
  object of another module (a callback, a promise, a loadable).
\<close>

datatype obj =
    TreeStateObj TreeState
  | StoreStateObj StoreState
  | GraphObj Graph
  | PlainObj "(string \<times> js_value) list"
  | SetObj "js_value list"
  | MapObj "(js_value \<times> js_value) list"
  | ArrayObj "js_value list"
  | ForeignObj nat

record runtime =
  nextTreeStateVersion :: nat
  heap :: "obj list"

text \<open>The module as loaded: line 114 of the source sets the counter to 0.\<close>

definition module_loaded :: "obj list \<Rightarrow> runtime" where
  "module_loaded h = \<lparr>nextTreeStateVersion = 0, heap = h\<rparr>"

definition lookup :: "obj list \<Rightarrow> ref \<Rightarrow> obj option" where
  "lookup h a = (if a < length h then Some (h ! a) else None)"

definition alloc :: "obj \<Rightarrow> runtime \<Rightarrow> ref \<times> runtime" where
  "alloc ob r = (length (heap r), r\<lparr>heap := heap r @ [ob]\<rparr>)"

subsection \<open>The version allocator\<close>

text \<open>
  A JavaScript number is an IEEE 754 double. Adding 1 to an integer below \<open>2 ^ 53\<close>
  is exact. \<open>2 ^ 53 + 1\<close> is not a double: it lies half way between \<open>2 ^ 53\<close> and
  \<open>2 ^ 53 + 2\<close>, and rounding to nearest, ties to even, gives \<open>2 ^ 53\<close> back.
  The counter starts at 0 and only this increment changes it, so it never exceeds
  \<open>2 ^ 53\<close>.
\<close>

definition exact_limit :: nat where
  "exact_limit = 2 ^ 53"

definition js_increment :: "nat \<Rightarrow> nat" where
  "js_increment n = (if n < exact_limit then n + 1 else n)"

text \<open>
  Line 115: \<^verbatim>\<open>const getNextTreeStateVersion = (): Version => nextTreeStateVersion++;\<close>
  The postfix increment returns the old value and stores the incremented one.
\<close>

definition getNextTreeStateVersion :: "runtime \<Rightarrow> Version \<times> runtime" where
  "getNextTreeStateVersion r =
     (nextTreeStateVersion r,
      r\<lparr>nextTreeStateVersion := js_increment (nextTreeStateVersion r)\<rparr>)"

subsection \<open>Constructors\<close>

text \<open>
  Lines 117 to 125. The properties of the object literal are evaluated in source
  order: the version first, then the four containers.
\<close>

definition makeEmptyTreeState :: "runtime \<Rightarrow> ref \<times> runtime" where
  "makeEmptyTreeState r0 =
     (let (v, r1) = getNextTreeStateVersion r0;
          (md, r2) = alloc (PlainObj []) r1;
          (da, r3) = alloc (SetObj []) r2;
          (av, r4) = alloc (MapObj []) r3;
          (nv, r5) = alloc (MapObj []) r4
      in alloc (TreeStateObj \<lparr>version = v, transactionMetadata = md, dirtyAtoms = da,
                  atomValues = av, nonvalidatedAtoms = nv\<rparr>) r5)"

text \<open>
  Modelled from the spec: \<^verbatim>\<open>graph()\<close> is imported from \<^verbatim>\<open>Recoil_Graph\<close>, which is not
  among the sources. The spec (4.3, 4.4) calls it \<^verbatim>\<open>emptyGraph() -> Graph\<close> and says the
  map is seeded with one empty graph: a new graph object with no node and no edge.
\<close>

definition emptyGraph :: Graph where
  "emptyGraph = \<lparr>graph_nodes = [], graph_edges = []\<rparr>"

definition graph :: "runtime \<Rightarrow> ref \<times> runtime" where
  "graph r = alloc (GraphObj emptyGraph) r"

text \<open>
  \<^verbatim>\<open>Map.prototype.set\<close>: an existing key keeps its place and gets the new value, a new
  key is appended. The map object is updated in place and returned.
\<close>

fun js_map_set :: "(js_value \<times> js_value) list \<Rightarrow> js_value \<Rightarrow> js_value \<Rightarrow> (js_value \<times> js_value) list" where
  "js_map_set [] k v = [(k, v)]"
| "js_map_set ((k', v') # kvs) k v =
     (if k' = k then (k, v) # kvs else (k', v') # js_map_set kvs k v)"

definition Map_set :: "ref \<Rightarrow> js_value \<Rightarrow> js_value \<Rightarrow> runtime \<Rightarrow> (ref \<times> runtime) option" where
  "Map_set m k v r =
     (case lookup (heap r) m of
        Some (MapObj kvs) \<Rightarrow> Some (m, r\<lparr>heap := (heap r)[m := MapObj (js_map_set kvs k v)]\<rparr>)
      | _ \<Rightarrow> None)"

text \<open>
  Reading \<^verbatim>\<open>treeState.version\<close>. The parameter is typed \<^verbatim>\<open>TreeState\<close> (the file is
  \<^verbatim>\<open>@flow strict\<close>); a reference to anything else is outside the function's domain and
  gives \<open>None\<close>.
\<close>

definition read_version :: "ref \<Rightarrow> runtime \<Rightarrow> Version option" where
  "read_version t r =
     (case lookup (heap r) t of Some (TreeStateObj ts) \<Rightarrow> Some (version ts) | _ \<Rightarrow> None)"

text \<open>
  Lines 127 to 141. The properties are evaluated in source order: \<^verbatim>\<open>knownAtoms\<close>,
  \<^verbatim>\<open>knownSelectors\<close>, \<^verbatim>\<open>transactionSubscriptions\<close>, \<^verbatim>\<open>nodeTransactionSubscriptions\<close>,
  \<^verbatim>\<open>queuedComponentCallbacks\<close>, \<^verbatim>\<open>suspendedComponentResolvers\<close>,
  \<^verbatim>\<open>nodeToComponentSubscriptions\<close>, then
  \<^verbatim>\<open>graphsByVersion: new Map().set(treeState.version, graph())\<close> and
  \<^verbatim>\<open>versionsUsedByComponent\<close>.
\<close>

definition makeStoreState :: "ref \<Rightarrow> runtime \<Rightarrow> (ref \<times> runtime) option" where
  "makeStoreState treeState r0 =
     (let (ka, r1) = alloc (SetObj []) r0;
          (ks, r2) = alloc (SetObj []) r1;
          (tsub, r3) = alloc (MapObj []) r2;
          (ntsub, r4) = alloc (MapObj []) r3;
          (qcc, r5) = alloc (ArrayObj []) r4;
          (scr, r6) = alloc (SetObj []) r5;
          (ntcs, r7) = alloc (MapObj []) r6;
          (m, r8) = alloc (MapObj []) r7
      in case read_version treeState r8 of
           None \<Rightarrow> None
         | Some v \<Rightarrow>
             (let (g, r9) = graph r8
              in case Map_set m (VNumber v) (VRef g) r9 of
                   None \<Rightarrow> None
                 | Some (gbv, r10) \<Rightarrow>
                     (let (vubc, r11) = alloc (MapObj []) r10
                      in Some (alloc (StoreStateObj
                           \<lparr>currentTree = treeState, nextTree = None,
                            knownAtoms = ka, knownSelectors = ks,
                            versionsUsedByComponent = vubc,
                            nodeToComponentSubscriptions = ntcs,
                            graphsByVersion = gbv,
                            transactionSubscriptions = tsub,
                            nodeTransactionSubscriptions = ntsub,
                            queuedComponentCallbacks = qcc,
                            suspendedComponentResolvers = scr\<rparr>) r11))))"

text \<open>Lines 143 to 145: \<^verbatim>\<open>return makeStoreState(makeEmptyTreeState());\<close>\<close>

definition makeEmptyStoreState :: "runtime \<Rightarrow> (ref \<times> runtime) option" where
  "makeEmptyStoreState r0 =
     (let (t, r1) = makeEmptyTreeState r0 in makeStoreState t r1)"

subsection \<open>Reading the heap\<close>

text \<open>
  What a caller sees when it follows a reference: the tree state or store state stored
  there, and the version of a store's current tree.
\<close>

definition tree_at :: "runtime \<Rightarrow> ref \<Rightarrow> TreeState option" where
  "tree_at r t = (case lookup (heap r) t of Some (TreeStateObj ts) \<Rightarrow> Some ts | _ \<Rightarrow> None)"

definition store_at :: "runtime \<Rightarrow> ref \<Rightarrow> StoreState option" where
  "store_at r s = (case lookup (heap r) s of Some (StoreStateObj st) \<Rightarrow> Some st | _ \<Rightarrow> None)"

definition currentTree_version :: "ref \<Rightarrow> runtime \<Rightarrow> Version option" where
  "currentTree_version s r =
     (case store_at r s of Some st \<Rightarrow> read_version (currentTree st) r | None \<Rightarrow> None)"

subsection \<open>Sequences of calls\<close>

text \<open>
  A client of the module calls its four exports in any order. \<open>exec\<close> performs one
  call, \<open>run\<close> a sequence of them, collecting what each call returned. A call of
  \<^verbatim>\<open>makeStoreState\<close> whose argument is not a tree state does not type-check; it is
  recorded as \<open>Rejected\<close> and changes nothing.
\<close>

datatype call =
    Call_getNextTreeStateVersion
  | Call_makeEmptyTreeState
  | Call_makeStoreState ref
  | Call_makeEmptyStoreState

datatype outcome = Returned_version Version | Returned_ref ref | Rejected

fun exec :: "call \<Rightarrow> runtime \<Rightarrow> outcome \<times> runtime" where
  "exec Call_getNextTreeStateVersion r =
     (let (v, r') = getNextTreeStateVersion r in (Returned_version v, r'))"
| "exec Call_makeEmptyTreeState r =
     (let (t, r') = makeEmptyTreeState r in (Returned_ref t, r'))"
| "exec (Call_makeStoreState t) r =
     (case makeStoreState t r of None \<Rightarrow> (Rejected, r) | Some (s, r') \<Rightarrow> (Returned_ref s, r'))"
| "exec Call_makeEmptyStoreState r =
     (case makeEmptyStoreState r of None \<Rightarrow> (Rejected, r) | Some (s, r') \<Rightarrow> (Returned_ref s, r'))"

fun run :: "call list \<Rightarrow> runtime \<Rightarrow> outcome list \<times> runtime" where
  "run [] r = ([], r)"
| "run (c # cs) r =
     (let (x, r1) = exec c r; (xs, r2) = run cs r1 in (x # xs, r2))"

text \<open>
  The tree state a call makes: what \<^verbatim>\<open>makeEmptyTreeState\<close> returns, or the current
  tree of the store \<^verbatim>\<open>makeEmptyStoreState\<close> returns (made by its inner call of
  \<^verbatim>\<open>makeEmptyTreeState\<close>).
\<close>

fun made_tree :: "call \<Rightarrow> outcome \<Rightarrow> runtime \<Rightarrow> ref option" where
  "made_tree Call_makeEmptyTreeState (Returned_ref t) r = Some t"
| "made_tree Call_makeEmptyStoreState (Returned_ref s) r = map_option currentTree (store_at r s)"
| "made_tree _ _ _ = None"

text \<open>
  The runtime after \<open>2 ^ 53\<close> calls of the allocator since the module was loaded.
\<close>

definition saturated_runtime :: runtime where
  "saturated_runtime =
     snd (run (replicate exact_limit Call_getNextTreeStateVersion) (module_loaded []))"

subsection \<open>The store protocol\<close>

text \<open>
  The invariant of the spec's data model (section 3): \<^verbatim>\<open>nextTree\<close>, when present, has a
  version greater than that of \<^verbatim>\<open>currentTree\<close>. Both are read through the heap.
\<close>

definition nextTree_newer :: "runtime \<Rightarrow> StoreState \<Rightarrow> bool" where
  "nextTree_newer r st =
     (case nextTree st of
        None \<Rightarrow> True
      | Some n \<Rightarrow>
          (case (read_version (currentTree st) r, read_version n r) of
             (Some vc, Some vn) \<Rightarrow> vc < vn
           | _ \<Rightarrow> False))"

text \<open>
  Modelled from the spec: the store facade is implemented outside \<^verbatim>\<open>Recoil_State.js\<close>;
  the sources only declare its type \<^verbatim>\<open>Store\<close> (lines 98 to 108). The spec (2, 4.5)
  says of \<^verbatim>\<open>replaceState(update)\<close>: it applies the pure function \<^verbatim>\<open>update\<close> to the
  latest snapshot (the pending \<^verbatim>\<open>nextTree\<close> when there is one, else \<^verbatim>\<open>currentTree\<close>);
  this produces a new tree state with a freshly allocated version, which must be
  strictly greater than \<^verbatim>\<open>currentTree.version\<close>, and installs it as \<^verbatim>\<open>nextTree\<close>. A
  violation of the version order is fatal and surfaced at the call (7). The spec's
  \<^verbatim>\<open>ConcurrentTransactionViolation\<close> cannot arise here, since the facade itself hands
  the latest snapshot to \<^verbatim>\<open>update\<close>.
\<close>

datatype store_error = NotAStore | VersionOrderViolation

definition replaceState :: "(TreeState \<Rightarrow> TreeState) \<Rightarrow> ref \<Rightarrow> runtime \<Rightarrow> store_error + runtime" where
  "replaceState update s r0 =
     (case store_at r0 s of
        None \<Rightarrow> Inl NotAStore
      | Some st \<Rightarrow>
          (case (tree_at r0 (currentTree st),
                 tree_at r0 (case nextTree st of None \<Rightarrow> currentTree st | Some n \<Rightarrow> n)) of
             (Some cur, Some latest) \<Rightarrow>
               (let (v, r1) = getNextTreeStateVersion r0;
                    (c, r2) = alloc (TreeStateObj ((update latest)\<lparr>version := v\<rparr>)) r1
                in if version cur < v
                   then Inr (r2\<lparr>heap := (heap r2)[s := StoreStateObj (st\<lparr>nextTree := Some c\<rparr>)]\<rparr>)
                   else Inl VersionOrderViolation)
           | _ \<Rightarrow> Inl NotAStore))"

text \<open>
  Modelled from the spec: the commit step of the transaction state machine (4.5),
  which is not among the sources either: \<^verbatim>\<open>nextTree\<close> is promoted to \<^verbatim>\<open>currentTree\<close>
  and the store is idle again. Without a pending tree there is nothing to commit.
\<close>

definition commit :: "ref \<Rightarrow> runtime \<Rightarrow> store_error + runtime" where
  "commit s r =
     (case store_at r s of
        None \<Rightarrow> Inl NotAStore
      | Some st \<Rightarrow>
          (case nextTree st of
             None \<Rightarrow> Inr r
           | Some n \<Rightarrow>
               Inr (r\<lparr>heap := (heap r)[s := StoreStateObj (st\<lparr>currentTree := n, nextTree := None\<rparr>)]\<rparr>)))"

text \<open>
  Modelled from the spec: the other operations of the facade
  (\<^verbatim>\<open>subscribeToTransactions\<close>, \<^verbatim>\<open>addTransactionMetadata\<close>, \<^verbatim>\<open>fireNodeSubscriptions\<close>,
  installing a graph; 4.5) are not among the sources. By the spec they update sets,
  maps, arrays, graphs and metadata objects in place and install no tree. They are
  modelled as the replacement of any object that is neither a tree state nor a store
  state by another such object (rule \<open>bookkept\<close> below).

  The runtimes a program can reach: the module is loaded into a heap without store
  states, since only the constructors of this module make them; then come calls of the
  module's exports (from the source), \<^verbatim>\<open>replaceState\<close>, commits and bookkeeping
  updates on any store (from the spec), and allocations of other objects, tree states
  among them, by the rest of the program.
\<close>

fun is_store :: "obj \<Rightarrow> bool" where
  "is_store (StoreStateObj st) = True"
| "is_store _ = False"

fun is_bookkeeping :: "obj \<Rightarrow> bool" where
  "is_bookkeeping (TreeStateObj ts) = False"
| "is_bookkeeping (StoreStateObj st) = False"
| "is_bookkeeping _ = True"

inductive reachable :: "runtime \<Rightarrow> bool" where
  loaded: "\<not> list_ex is_store h \<Longrightarrow> reachable (module_loaded h)"
| called: "reachable r \<Longrightarrow> reachable (snd (exec c r))"
| replaced: "reachable r \<Longrightarrow> replaceState update s r = Inr r' \<Longrightarrow> reachable r'"
| committed: "reachable r \<Longrightarrow> commit s r = Inr r' \<Longrightarrow> reachable r'"
| bookkept: "reachable r \<Longrightarrow> lookup (heap r) a = Some ob \<Longrightarrow> is_bookkeeping ob \<Longrightarrow>
    is_bookkeeping ob' \<Longrightarrow> reachable (r\<lparr>heap := (heap r)[a := ob']\<rparr>)"
| allocated: "reachable r \<Longrightarrow> \<not> is_store ob \<Longrightarrow> reachable (r\<lparr>heap := heap r @ [ob]\<rparr>)"

text \<open>
  The invariant that the proof carries through every step: each store state on the
  heap refers to a tree state as its current tree, and its next tree is newer.
\<close>

definition stores_ok :: "runtime \<Rightarrow> bool" where
  "stores_ok r = (\<forall>s st. store_at r s = Some st \<longrightarrow>
      (\<exists>tc. tree_at r (currentTree st) = Some tc) \<and> nextTree_newer r st)"

subsection \<open>Example data and allocation layouts\<close>

text \<open>
  A small heap for examples: one tree state of version 7 at address 4, with its four
  containers at addresses 0 to 3, in a module whose counter stands at 8.
\<close>

definition example_tree :: TreeState where
  "example_tree = \<lparr>version = 7, transactionMetadata = 0, dirtyAtoms = 1,
                    atomValues = 2, nonvalidatedAtoms = 3\<rparr>"

definition example_runtime :: runtime where
  "example_runtime =
     \<lparr>nextTreeStateVersion = 8,
      heap = [PlainObj [], SetObj [VString ''a''], MapObj [(VString ''a'', VNumber 1)],
              MapObj [], TreeStateObj example_tree]\<rparr>"

text \<open>The objects \<^verbatim>\<open>makeStoreState\<close> allocates, in order, on a heap of \<open>n\<close> objects.\<close>

definition store_layout :: "ref \<Rightarrow> Version \<Rightarrow> nat \<Rightarrow> obj list" where
  "store_layout t v n =
     [SetObj [], SetObj [], MapObj [], MapObj [], ArrayObj [], SetObj [], MapObj [],
      MapObj [(VNumber v, VRef (n + 8))], GraphObj emptyGraph, MapObj [],
      StoreStateObj
        \<lparr>currentTree = t, nextTree = None,
         knownAtoms = n, knownSelectors = n + 1,
         versionsUsedByComponent = n + 9,
         nodeToComponentSubscriptions = n + 6,
         graphsByVersion = n + 7,
         transactionSubscriptions = n + 2,
         nodeTransactionSubscriptions = n + 3,
         queuedComponentCallbacks = n + 4,
         suspendedComponentResolvers = n + 5\<rparr>]"

text \<open>The objects \<^verbatim>\<open>makeEmptyTreeState\<close> allocates, in order.\<close>

definition tree_layout :: "Version \<Rightarrow> nat \<Rightarrow> obj list" where
  "tree_layout v n =
     [PlainObj [], SetObj [], MapObj [], MapObj [],
      TreeStateObj \<lparr>version = v, transactionMetadata = n, dirtyAtoms = n + 1,
                    atomValues = n + 2, nonvalidatedAtoms = n + 3\<rparr>]"

subsection \<open>Basic facts about the heap\<close>

lemma lookup_append_old: "a < length h \<Longrightarrow> lookup (h @ xs) a = lookup h a"
  by (simp add: lookup_def nth_append)

lemma lookup_append_new:
  "lookup (h @ xs) (length h + i) = (if i < length xs then Some (xs ! i) else None)"
  by (simp add: lookup_def nth_append)

lemma lookup_SomeD: "lookup h a = Some ob \<Longrightarrow> a < length h"
  by (simp add: lookup_def split: if_splits)

lemma lookup_prefix: "prefix h h' \<Longrightarrow> lookup h a = Some ob \<Longrightarrow> lookup h' a = Some ob"
  by (auto simp: prefix_def lookup_def nth_append split: if_splits)

subsection \<open>What the constructors allocate\<close>

lemma makeEmptyTreeState_unfold:
  "makeEmptyTreeState r =
     (length (heap r) + 4,
      r\<lparr>nextTreeStateVersion := js_increment (nextTreeStateVersion r),
        heap := heap r @ tree_layout (nextTreeStateVersion r) (length (heap r))\<rparr>)"
  by (simp add: makeEmptyTreeState_def getNextTreeStateVersion_def alloc_def tree_layout_def)

lemma makeStoreState_unfold:
  assumes "lookup (heap r) t = Some (TreeStateObj ts)"
  shows "makeStoreState t r =
     Some (length (heap r) + 10,
           r\<lparr>heap := heap r @ store_layout t (version ts) (length (heap r))\<rparr>)"
proof -
  have lt: "t < length (heap r)" using assms by (rule lookup_SomeD)
  show ?thesis
    using assms lt
    by (simp add: makeStoreState_def alloc_def read_version_def graph_def Map_set_def
        lookup_def nth_append store_layout_def list_update_append)
qed

lemma read_version_fresh_containers:
  assumes "\<not> t < length h"
  shows "read_version t (r\<lparr>heap := h @ [SetObj [], SetObj [], MapObj [], MapObj [],
           ArrayObj [], SetObj [], MapObj [], MapObj []]\<rparr>) = None"
proof -
  let ?xs = "[SetObj [], SetObj [], MapObj [], MapObj [], ArrayObj [], SetObj [], MapObj [], MapObj []]"
  have no_tree: "\<And>ob ts. ob \<in> set ?xs \<Longrightarrow> ob \<noteq> TreeStateObj ts" by auto
  show ?thesis
  proof (cases "t < length h + length ?xs")
    case True
    with assms have "?xs ! (t - length h) \<in> set ?xs"
      by (intro nth_mem) simp
    then have "\<And>ts. ?xs ! (t - length h) \<noteq> TreeStateObj ts"
      by (rule no_tree)
    with True assms show ?thesis
      by (simp add: read_version_def lookup_def nth_append split: obj.splits)
  next
    case False
    then show ?thesis by (simp add: read_version_def lookup_def)
  qed
qed

lemma makeStoreState_SomeD:
  assumes "makeStoreState t r = Some x"
  shows "\<exists>ts. lookup (heap r) t = Some (TreeStateObj ts)"
proof (cases "t < length (heap r)")
  case True
  with assms show ?thesis
    by (auto simp: makeStoreState_def alloc_def read_version_def lookup_def nth_append
        split: option.splits obj.splits)
next
  case False
  then have "read_version t (r\<lparr>heap := heap r @ [SetObj [], SetObj [], MapObj [], MapObj [],
           ArrayObj [], SetObj [], MapObj [], MapObj []]\<rparr>) = None"
    by (rule read_version_fresh_containers)
  with assms show ?thesis
    by (simp add: makeStoreState_def alloc_def)
qed

lemma makeEmptyStoreState_unfold:
  "makeEmptyStoreState r =
     Some (length (heap r) + 15,
           r\<lparr>nextTreeStateVersion := js_increment (nextTreeStateVersion r),
             heap := heap r @ tree_layout (nextTreeStateVersion r) (length (heap r))
                       @ store_layout (length (heap r) + 4) (nextTreeStateVersion r)
                           (length (heap r) + 5)\<rparr>)"
proof -
  let ?r1 = "r\<lparr>nextTreeStateVersion := js_increment (nextTreeStateVersion r),
        heap := heap r @ tree_layout (nextTreeStateVersion r) (length (heap r))\<rparr>"
  have look: "lookup (heap ?r1) (length (heap r) + 4) =
      Some (TreeStateObj \<lparr>version = nextTreeStateVersion r,
              transactionMetadata = length (heap r), dirtyAtoms = length (heap r) + 1,
              atomValues = length (heap r) + 2, nonvalidatedAtoms = length (heap r) + 3\<rparr>)"
    by (simp add: lookup_append_new tree_layout_def)
  have len: "length (heap ?r1) = length (heap r) + 5"
    by (simp add: tree_layout_def)
  have "makeEmptyStoreState r = makeStoreState (length (heap r) + 4) ?r1"
    by (simp add: makeEmptyStoreState_def makeEmptyTreeState_unfold)
  also have "\<dots> = Some (length (heap r) + 5 + 10,
      ?r1\<lparr>heap := heap ?r1 @ store_layout (length (heap r) + 4) (nextTreeStateVersion r)
                 (length (heap r) + 5)\<rparr>)"
    using makeStoreState_unfold [OF look] unfolding len by simp
  finally show ?thesis
    by simp
qed

lemma length_tree_layout: "length (tree_layout v n) = 5"
  by (simp add: tree_layout_def)

lemma length_store_layout: "length (store_layout t v n) = 11"
  by (simp add: store_layout_def)

lemma store_layout_no_tree: "ob \<in> set (store_layout t v n) \<Longrightarrow> ob \<noteq> TreeStateObj ts'"
  by (auto simp: store_layout_def)

lemma lookup_append_cases:
  "lookup (h @ xs) a = Some ob \<Longrightarrow> lookup h a = Some ob \<or> (length h \<le> a \<and> ob \<in> set xs)"
  by (auto simp: lookup_def nth_append split: if_splits)

subsection \<open>Sequences of calls\<close>

lemma js_increment_ge: "n \<le> js_increment n"
  by (simp add: js_increment_def)

lemma js_increment_below: "n < exact_limit \<Longrightarrow> js_increment n = Suc n"
  by (simp add: js_increment_def)

lemma exec_effect:
  "nextTreeStateVersion r \<le> nextTreeStateVersion (snd (exec c r)) \<and>
   prefix (heap r) (heap (snd (exec c r)))"
proof (cases c)
  case Call_getNextTreeStateVersion
  then show ?thesis
    by (simp add: getNextTreeStateVersion_def js_increment_ge)
next
  case Call_makeEmptyTreeState
  then show ?thesis
    by (simp add: makeEmptyTreeState_unfold js_increment_ge)
next
  case (Call_makeStoreState t)
  show ?thesis
  proof (cases "makeStoreState t r")
    case None
    with Call_makeStoreState show ?thesis by simp
  next
    case (Some x)
    then obtain ts where "lookup (heap r) t = Some (TreeStateObj ts)"
      using makeStoreState_SomeD by blast
    from makeStoreState_unfold [OF this] Call_makeStoreState show ?thesis
      by simp
  qed
next
  case Call_makeEmptyStoreState
  then show ?thesis
    by (simp add: makeEmptyStoreState_unfold js_increment_ge)
qed

lemma run_effect:
  "nextTreeStateVersion r \<le> nextTreeStateVersion (snd (run cs r)) \<and>
   prefix (heap r) (heap (snd (run cs r)))"
proof (induction cs arbitrary: r)
  case Nil
  show ?case by simp
next
  case (Cons c cs)
  have step: "snd (run (c # cs) r) = snd (run cs (snd (exec c r)))"
    by (simp add: split_def Let_def)
  from exec_effect [of r c] Cons.IH [of "snd (exec c r)"] show ?case
    unfolding step by (meson order_trans prefix_order.order_trans)
qed

lemma exec_counter_bounded:
  "nextTreeStateVersion r \<le> exact_limit \<Longrightarrow>
   nextTreeStateVersion (snd (exec c r)) \<le> exact_limit"
proof (cases c)
  case (Call_makeStoreState t)
  assume bound: "nextTreeStateVersion r \<le> exact_limit"
  show ?thesis
  proof (cases "makeStoreState t r")
    case None
    with bound Call_makeStoreState show ?thesis by simp
  next
    case (Some x)
    then obtain ts where "lookup (heap r) t = Some (TreeStateObj ts)"
      using makeStoreState_SomeD by blast
    from makeStoreState_unfold [OF this] bound Call_makeStoreState show ?thesis
      by simp
  qed
qed (simp_all add: getNextTreeStateVersion_def makeEmptyTreeState_unfold
       makeEmptyStoreState_unfold js_increment_def)

lemma run_counter_bounded:
  "nextTreeStateVersion r \<le> exact_limit \<Longrightarrow>
   nextTreeStateVersion (snd (run cs r)) \<le> exact_limit"
proof (induction cs arbitrary: r)
  case Nil
  then show ?case by simp
next
  case (Cons c cs)
  have step: "snd (run (c # cs) r) = snd (run cs (snd (exec c r)))"
    by (simp add: split_def Let_def)
  from Cons.IH [OF exec_counter_bounded [OF Cons.prems]] show ?case
    unfolding step .
qed

lemma run_getNext_replicate:
  "nextTreeStateVersion r \<le> exact_limit \<Longrightarrow>
   nextTreeStateVersion r + n \<le> exact_limit + 1 \<Longrightarrow>
   run (replicate n Call_getNextTreeStateVersion) r =
     (map Returned_version [nextTreeStateVersion r ..< nextTreeStateVersion r + n],
      r\<lparr>nextTreeStateVersion := min (nextTreeStateVersion r + n) exact_limit\<rparr>)"
proof (induction n arbitrary: r)
  case 0
  then show ?case by (simp add: min_absorb1)
next
  case (Suc n)
  let ?c = "nextTreeStateVersion r"
  let ?r1 = "r\<lparr>nextTreeStateVersion := js_increment ?c\<rparr>"
  show ?case
  proof (cases "?c < exact_limit")
    case True
    then have inc: "js_increment ?c = Suc ?c" by (rule js_increment_below)
    have "nextTreeStateVersion ?r1 \<le> exact_limit"
      and "nextTreeStateVersion ?r1 + n \<le> exact_limit + 1"
      using Suc.prems True inc by simp_all
    from Suc.IH [OF this] show ?thesis
      by (simp add: getNextTreeStateVersion_def inc upt_conv_Cons)
  next
    case False
    with Suc.prems have c: "?c = exact_limit" and n: "n = 0" by simp_all
    then show ?thesis
      by (simp add: getNextTreeStateVersion_def js_increment_def)
  qed
qed

lemma saturated_runtime_eq:
  "saturated_runtime = \<lparr>nextTreeStateVersion = exact_limit, heap = []\<rparr>"
proof -
  have "nextTreeStateVersion (module_loaded []) \<le> exact_limit"
    and "nextTreeStateVersion (module_loaded []) + exact_limit \<le> exact_limit + 1"
    by (simp_all add: module_loaded_def)
  from run_getNext_replicate [OF this] show ?thesis
    by (simp add: saturated_runtime_def module_loaded_def)
qed

lemma tree_at_prefix: "prefix (heap r) (heap r') \<Longrightarrow> tree_at r t = Some ts \<Longrightarrow> tree_at r' t = Some ts"
  by (auto simp: tree_at_def dest: lookup_prefix split: option.splits obj.splits)

lemma store_at_prefix: "prefix (heap r) (heap r') \<Longrightarrow> store_at r s = Some st \<Longrightarrow> store_at r' s = Some st"
  by (auto simp: store_at_def dest: lookup_prefix split: option.splits obj.splits)

lemma made_tree_prefix:
  "prefix (heap r) (heap r') \<Longrightarrow> made_tree c out r = Some t \<Longrightarrow> made_tree c out r' = Some t"
  by (cases "(c, out, r)" rule: made_tree.cases) (auto dest: store_at_prefix)

lemma tree_at_SomeD: "tree_at r t = Some ts \<Longrightarrow> t < length (heap r)"
  by (auto simp: tree_at_def dest: lookup_SomeD split: option.splits obj.splits)

lemma exec_makes_tree:
  assumes "c = Call_makeEmptyTreeState \<or> c = Call_makeEmptyStoreState"
  shows "\<exists>t ts. made_tree c (fst (exec c r)) (snd (exec c r)) = Some t \<and>
           tree_at (snd (exec c r)) t = Some ts \<and>
           version ts = nextTreeStateVersion r \<and>
           length (heap r) \<le> t \<and>
           nextTreeStateVersion (snd (exec c r)) = js_increment (nextTreeStateVersion r)"
  using assms
proof
  assume c: "c = Call_makeEmptyTreeState"
  show ?thesis
    unfolding c
    by (simp add: makeEmptyTreeState_unfold tree_at_def lookup_def nth_append tree_layout_def)
next
  assume c: "c = Call_makeEmptyStoreState"
  show ?thesis
    unfolding c
    by (simp add: makeEmptyStoreState_unfold tree_at_def store_at_def lookup_def nth_append
        tree_layout_def store_layout_def)
qed

lemma tree_made_later_is_newer:
  assumes c0: "c0 = Call_makeEmptyTreeState \<or> c0 = Call_makeEmptyStoreState"
    and small: "nextTreeStateVersion r0 < exact_limit"
    and r: "r = snd (run cs (snd (exec c0 r0)))"
  shows "\<exists>t0 ts0.
      made_tree c0 (fst (exec c0 r0)) (snd (makeEmptyTreeState r)) = Some t0 \<and>
      tree_at (snd (makeEmptyTreeState r)) t0 = Some ts0 \<and>
      t0 < length (heap r) \<and>
      version ts0 < nextTreeStateVersion r"
proof -
  let ?r1 = "snd (exec c0 r0)"
  let ?r' = "snd (makeEmptyTreeState r)"
  obtain t0 ts0 where m: "made_tree c0 (fst (exec c0 r0)) ?r1 = Some t0"
    and a: "tree_at ?r1 t0 = Some ts0" and v: "version ts0 = nextTreeStateVersion r0"
    and n: "nextTreeStateVersion ?r1 = js_increment (nextTreeStateVersion r0)"
    using exec_makes_tree [OF c0, of r0] by blast
  have p1: "prefix (heap ?r1) (heap r)" and c1: "nextTreeStateVersion ?r1 \<le> nextTreeStateVersion r"
    using run_effect [of ?r1 cs] by (simp_all add: r)
  have p2: "prefix (heap r) (heap ?r')"
    by (simp add: makeEmptyTreeState_unfold)
  have p: "prefix (heap ?r1) (heap ?r')"
    using p1 p2 by (rule prefix_order.order_trans)
  have "t0 < length (heap ?r1)" using a by (rule tree_at_SomeD)
  also have "\<dots> \<le> length (heap r)" using p1 by (rule prefix_length_le)
  finally have old: "t0 < length (heap r)" .
  have "version ts0 < nextTreeStateVersion ?r1"
    using small by (simp add: v n js_increment_below)
  with c1 have lt: "version ts0 < nextTreeStateVersion r" by simp
  from made_tree_prefix [OF p m] tree_at_prefix [OF p a] old lt show ?thesis
    by blast
qed

subsection \<open>The store protocol preserves the invariant\<close>

lemma read_version_tree_at: "read_version t r = map_option version (tree_at r t)"
  by (simp add: read_version_def tree_at_def split: option.splits obj.splits)

lemma nextTree_newer_alt:
  "nextTree_newer r st =
     (\<forall>n. nextTree st = Some n \<longrightarrow>
        (\<exists>tc tn. tree_at r (currentTree st) = Some tc \<and> tree_at r n = Some tn \<and>
           version tc < version tn))"
  by (auto simp: nextTree_newer_def read_version_tree_at split: option.splits)

lemma tree_at_store_update:
  "store_at r s = Some st \<Longrightarrow>
   tree_at (r\<lparr>heap := (heap r)[s := StoreStateObj x]\<rparr>) t = tree_at r t"
  by (auto simp: store_at_def tree_at_def lookup_def nth_list_update
      split: option.splits obj.splits if_splits)

lemma store_at_store_update:
  "store_at r s = Some st \<Longrightarrow>
   store_at (r\<lparr>heap := (heap r)[s := StoreStateObj x]\<rparr>) s' =
     (if s' = s then Some x else store_at r s')"
  by (auto simp: store_at_def lookup_def nth_list_update split: option.splits obj.splits if_splits)

lemma stores_ok_loaded: "\<not> list_ex is_store h \<Longrightarrow> stores_ok (module_loaded h)"
proof -
  assume no: "\<not> list_ex is_store h"
  have "store_at (module_loaded h) s = None" for s
  proof (cases "s < length h")
    case True
    then have "h ! s \<in> set h" by simp
    with no have "\<not> is_store (h ! s)" by (auto simp: list_ex_iff)
    then show ?thesis
      using True by (cases "h ! s") (simp_all add: store_at_def lookup_def module_loaded_def)
  next
    case False
    then show ?thesis by (simp add: store_at_def lookup_def module_loaded_def)
  qed
  then show ?thesis by (simp add: stores_ok_def)
qed

lemma stores_ok_append:
  assumes ok: "stores_ok r"
    and h': "heap r' = heap r @ new"
    and new: "\<And>st. StoreStateObj st \<in> set new \<Longrightarrow>
        nextTree st = None \<and> (\<exists>tc. tree_at r' (currentTree st) = Some tc)"
  shows "stores_ok r'"
  unfolding stores_ok_def
proof (intro allI impI)
  fix s st
  assume s: "store_at r' s = Some st"
  have p: "prefix (heap r) (heap r')" by (simp add: h')
  from s have look: "lookup (heap r @ new) s = Some (StoreStateObj st)"
    by (simp add: store_at_def h' split: option.splits obj.splits)
  from lookup_append_cases [OF look]
  show "(\<exists>tc. tree_at r' (currentTree st) = Some tc) \<and> nextTree_newer r' st"
  proof
    assume "lookup (heap r) s = Some (StoreStateObj st)"
    then have "store_at r s = Some st" by (simp add: store_at_def)
    with ok have cur: "\<exists>tc. tree_at r (currentTree st) = Some tc" and nn: "nextTree_newer r st"
      by (auto simp: stores_ok_def)
    from cur p have "\<exists>tc. tree_at r' (currentTree st) = Some tc"
      by (blast intro: tree_at_prefix)
    moreover from nn p have "nextTree_newer r' st"
      unfolding nextTree_newer_alt by (blast intro: tree_at_prefix)
    ultimately show ?thesis by blast
  next
    assume "length (heap r) \<le> s \<and> StoreStateObj st \<in> set new"
    then have "nextTree st = None \<and> (\<exists>tc. tree_at r' (currentTree st) = Some tc)"
      using new by blast
    then show ?thesis by (simp add: nextTree_newer_def)
  qed
qed

lemma stores_ok_exec: "stores_ok r \<Longrightarrow> stores_ok (snd (exec c r))"
proof (cases c)
  case Call_getNextTreeStateVersion
  assume "stores_ok r"
  then show ?thesis
    unfolding Call_getNextTreeStateVersion
    by (rule stores_ok_append [where new = "[]"])
       (simp_all add: getNextTreeStateVersion_def)
next
  case Call_makeEmptyTreeState
  assume "stores_ok r"
  then show ?thesis
    unfolding Call_makeEmptyTreeState
    by (rule stores_ok_append
          [where new = "tree_layout (nextTreeStateVersion r) (length (heap r))"])
       (auto simp: makeEmptyTreeState_unfold tree_layout_def)
next
  case (Call_makeStoreState t)
  assume ok: "stores_ok r"
  show ?thesis
  proof (cases "makeStoreState t r")
    case None
    with ok Call_makeStoreState show ?thesis by simp
  next
    case (Some x)
    then obtain ts where t: "lookup (heap r) t = Some (TreeStateObj ts)"
      using makeStoreState_SomeD by blast
    have lt: "t < length (heap r)" using t by (rule lookup_SomeD)
    note made = makeStoreState_unfold [OF t]
    from ok show ?thesis
      unfolding Call_makeStoreState
      by (rule stores_ok_append
            [where new = "store_layout t (version ts) (length (heap r))"])
         (use t lt in \<open>auto simp: made store_layout_def tree_at_def lookup_def nth_append\<close>)
  qed
next
  case Call_makeEmptyStoreState
  assume "stores_ok r"
  then show ?thesis
    unfolding Call_makeEmptyStoreState
    by (rule stores_ok_append
          [where new = "tree_layout (nextTreeStateVersion r) (length (heap r))
             @ store_layout (length (heap r) + 4) (nextTreeStateVersion r) (length (heap r) + 5)"])
       (auto simp: makeEmptyStoreState_unfold store_layout_def tree_layout_def tree_at_def
          lookup_def nth_append)
qed

lemma replaceState_InrD:
  assumes "replaceState update s r = Inr r'"
  shows "\<exists>st cur latest.
      store_at r s = Some st \<and>
      tree_at r (currentTree st) = Some cur \<and>
      version cur < nextTreeStateVersion r \<and>
      r' = r\<lparr>nextTreeStateVersion := js_increment (nextTreeStateVersion r),
             heap := (heap r @ [TreeStateObj ((update latest)\<lparr>version := nextTreeStateVersion r\<rparr>)])
                       [s := StoreStateObj (st\<lparr>nextTree := Some (length (heap r))\<rparr>)]\<rparr>"
  using assms
  by (auto simp: replaceState_def getNextTreeStateVersion_def alloc_def
      split: option.splits if_splits)

lemma commit_InrD:
  assumes "commit s r = Inr r'"
  shows "r' = r \<or> (\<exists>st n. store_at r s = Some st \<and> nextTree st = Some n \<and>
      r' = r\<lparr>heap := (heap r)[s := StoreStateObj (st\<lparr>currentTree := n, nextTree := None\<rparr>)]\<rparr>)"
  using assms
  by (auto simp: commit_def split: option.splits)

lemma stores_ok_store_update:
  assumes ok: "stores_ok r"
    and s: "store_at r s = Some st"
    and x: "(\<exists>tc. tree_at r (currentTree x) = Some tc) \<and> nextTree_newer r x"
  shows "stores_ok (r\<lparr>heap := (heap r)[s := StoreStateObj x]\<rparr>)"
  unfolding stores_ok_def
proof (intro allI impI)
  let ?r' = "r\<lparr>heap := (heap r)[s := StoreStateObj x]\<rparr>"
  fix s' st'
  assume "store_at ?r' s' = Some st'"
  then have st': "(if s' = s then Some x else store_at r s') = Some st'"
    by (simp add: store_at_store_update [OF s])
  have trees: "tree_at ?r' t = tree_at r t" for t
    by (rule tree_at_store_update [OF s])
  have "(\<exists>tc. tree_at r (currentTree st') = Some tc) \<and> nextTree_newer r st'"
  proof (cases "s' = s")
    case True
    with st' x show ?thesis by simp
  next
    case False
    with st' ok show ?thesis by (simp add: stores_ok_def)
  qed
  then show "(\<exists>tc. tree_at ?r' (currentTree st') = Some tc) \<and> nextTree_newer ?r' st'"
    by (simp add: nextTree_newer_alt trees)
qed

lemma stores_ok_commit:
  assumes "stores_ok r" and "commit s r = Inr r'"
  shows "stores_ok r'"
proof -
  from commit_InrD [OF assms(2)] show ?thesis
  proof
    assume "r' = r"
    with assms(1) show ?thesis by simp
  next
    assume "\<exists>st n. store_at r s = Some st \<and> nextTree st = Some n \<and>
      r' = r\<lparr>heap := (heap r)[s := StoreStateObj (st\<lparr>currentTree := n, nextTree := None\<rparr>)]\<rparr>"
    then obtain st n where s: "store_at r s = Some st" and n: "nextTree st = Some n"
      and r': "r' = r\<lparr>heap := (heap r)[s := StoreStateObj (st\<lparr>currentTree := n, nextTree := None\<rparr>)]\<rparr>"
      by blast
    from assms(1) s have "nextTree_newer r st" by (simp add: stores_ok_def)
    with n have "\<exists>tn. tree_at r n = Some tn" by (auto simp: nextTree_newer_alt)
    then have "(\<exists>tc. tree_at r (currentTree (st\<lparr>currentTree := n, nextTree := None\<rparr>)) = Some tc)
        \<and> nextTree_newer r (st\<lparr>currentTree := n, nextTree := None\<rparr>)"
      by (simp add: nextTree_newer_def)
    from stores_ok_store_update [OF assms(1) s this] show ?thesis
      by (simp add: r')
  qed
qed

lemma stores_ok_replaceState:
  assumes "stores_ok r" and "replaceState update s r = Inr r'"
  shows "stores_ok r'"
proof -
  from replaceState_InrD [OF assms(2)] obtain st cur latest where
    s: "store_at r s = Some st" and cur: "tree_at r (currentTree st) = Some cur"
    and lt: "version cur < nextTreeStateVersion r"
    and r': "r' = r\<lparr>nextTreeStateVersion := js_increment (nextTreeStateVersion r),
             heap := (heap r @ [TreeStateObj ((update latest)\<lparr>version := nextTreeStateVersion r\<rparr>)])
                       [s := StoreStateObj (st\<lparr>nextTree := Some (length (heap r))\<rparr>)]\<rparr>"
    by blast
  let ?cand = "(update latest)\<lparr>version := nextTreeStateVersion r\<rparr>"
  let ?r1 = "r\<lparr>nextTreeStateVersion := js_increment (nextTreeStateVersion r),
              heap := heap r @ [TreeStateObj ?cand]\<rparr>"
  have p: "prefix (heap r) (heap ?r1)" by simp
  have ok1: "stores_ok ?r1"
    using assms(1) by (rule stores_ok_append [where new = "[TreeStateObj ?cand]"]) simp_all
  have s1: "store_at ?r1 s = Some st"
    using p s by (rule store_at_prefix)
  have cur1: "tree_at ?r1 (currentTree st) = Some cur"
    using p cur by (rule tree_at_prefix)
  have cand1: "tree_at ?r1 (length (heap r)) = Some ?cand"
    by (simp add: tree_at_def lookup_def)
  have "(\<exists>tc. tree_at ?r1 (currentTree (st\<lparr>nextTree := Some (length (heap r))\<rparr>)) = Some tc)
        \<and> nextTree_newer ?r1 (st\<lparr>nextTree := Some (length (heap r))\<rparr>)"
    using cur1 cand1 lt by (simp add: nextTree_newer_alt)
  from stores_ok_store_update [OF ok1 s1 this] show ?thesis
    by (simp add: r')
qed

lemma stores_ok_bookkeeping:
  assumes ok: "stores_ok r" and a: "lookup (heap r) a = Some ob"
    and ob: "is_bookkeeping ob" and ob': "is_bookkeeping ob'"
  shows "stores_ok (r\<lparr>heap := (heap r)[a := ob']\<rparr>)"
proof -
  let ?r' = "r\<lparr>heap := (heap r)[a := ob']\<rparr>"
  have lt: "a < length (heap r)" using a by (rule lookup_SomeD)
  have at: "heap r ! a = ob" using a by (simp add: lookup_def split: if_splits)
  have trees: "tree_at ?r' t = tree_at r t" for t
    using lt at ob ob'
    by (cases ob; cases ob')
       (auto simp: tree_at_def lookup_def nth_list_update split: option.splits obj.splits)
  have stores: "store_at ?r' s = store_at r s" for s
    using lt at ob ob'
    by (cases ob; cases ob')
       (auto simp: store_at_def lookup_def nth_list_update split: option.splits obj.splits)
  from ok show ?thesis
    by (simp add: stores_ok_def nextTree_newer_alt trees stores)
qed

lemma reachable_stores_ok: "reachable r \<Longrightarrow> stores_ok r"
proof (induction rule: reachable.induct)
  case (loaded h)
  then show ?case by (rule stores_ok_loaded)
next
  case (called r c)
  then show ?case by (simp add: stores_ok_exec)
next
  case (replaced r update s r')
  then show ?case by (blast intro: stores_ok_replaceState)
next
  case (committed r s r')
  then show ?case by (blast intro: stores_ok_commit)
next
  case (bookkept r a ob ob')
  then show ?case by (blast intro: stores_ok_bookkeeping)
next
  case (allocated r ob)
  from allocated.IH show ?case
    by (rule stores_ok_append [where new = "[ob]"]) (use allocated.hyps in auto)
qed

section \<open>The claims\<close>

subsection \<open>C1: the allocator is increasing\<close>

text \<open>
  C1 (amended). The first call of \<^verbatim>\<open>getNextTreeStateVersion\<close> after the module is
  loaded returns 0. A call never returns less than an earlier call did, whatever calls
  of the module come between them, and it returns strictly more than every earlier
  return value below \<open>2 ^ 53\<close>.
\<close>

theorem getNextTreeStateVersion_increasing:
  "fst (getNextTreeStateVersion (module_loaded h)) = 0 \<and>
   fst (getNextTreeStateVersion r)
     \<le> fst (getNextTreeStateVersion (snd (run cs (snd (getNextTreeStateVersion r))))) \<and>
   (nextTreeStateVersion r < exact_limit \<longrightarrow>
      fst (getNextTreeStateVersion r)
        < fst (getNextTreeStateVersion (snd (run cs (snd (getNextTreeStateVersion r))))))"
proof -
  let ?r1 = "snd (getNextTreeStateVersion r)"
  have first: "fst (getNextTreeStateVersion (module_loaded h)) = 0"
    by (simp add: getNextTreeStateVersion_def module_loaded_def)
  have later: "nextTreeStateVersion ?r1 \<le> fst (getNextTreeStateVersion (snd (run cs ?r1)))"
    using run_effect [of ?r1 cs] by (simp add: getNextTreeStateVersion_def)
  have ge: "fst (getNextTreeStateVersion r) \<le> nextTreeStateVersion ?r1"
    by (simp add: getNextTreeStateVersion_def js_increment_ge)
  have gt: "fst (getNextTreeStateVersion r) < nextTreeStateVersion ?r1"
    if "nextTreeStateVersion r < exact_limit"
    using that by (simp add: getNextTreeStateVersion_def js_increment_below)
  from first later ge gt show ?thesis
    by (meson le_trans less_le_trans)
qed

theorem getNextTreeStateVersion_increasing_witness:
  "nextTreeStateVersion (module_loaded []) < exact_limit \<and>
   fst (getNextTreeStateVersion (module_loaded [])) = 0 \<and>
   fst (getNextTreeStateVersion (module_loaded []))
      < fst (getNextTreeStateVersion
          (snd (run [Call_makeEmptyStoreState, Call_getNextTreeStateVersion]
             (snd (getNextTreeStateVersion (module_loaded []))))))"
proof -
  have small: "nextTreeStateVersion (module_loaded []) < exact_limit"
    by (simp add: module_loaded_def exact_limit_def)
  with getNextTreeStateVersion_increasing
         [of "[]" "module_loaded []" "[Call_makeEmptyStoreState, Call_getNextTreeStateVersion]"]
  show ?thesis by blast
qed

text \<open>
  The claim as stated fails once the counter has reached \<open>2 ^ 53\<close>: after that
  many calls, two calls in a row return the same value.
\<close>

theorem allocator_saturates_counterexample:
  "\<not> fst (getNextTreeStateVersion saturated_runtime)
       < fst (getNextTreeStateVersion (snd (getNextTreeStateVersion saturated_runtime)))"
  by (simp add: saturated_runtime_eq getNextTreeStateVersion_def js_increment_def)

subsection \<open>C2: the store made by \<^verbatim>\<open>makeEmptyStoreState\<close>\<close>

text \<open>
  C2 (amended). \<^verbatim>\<open>makeEmptyStoreState()\<close> always returns a store state. The version of
  its current tree is the value the allocator's counter had at the call: 0 when nothing
  was allocated since the module was loaded, and not 0 for a later store, because the
  counter belongs to the module and not to the store. \<^verbatim>\<open>nextTree\<close> is null and
  \<^verbatim>\<open>graphsByVersion\<close> has exactly one entry, keyed by that version.
\<close>

theorem makeEmptyStoreState_initial:
  "\<exists>s r' st ts g.
     makeEmptyStoreState r = Some (s, r') \<and>
     lookup (heap r') s = Some (StoreStateObj st) \<and>
     lookup (heap r') (currentTree st) = Some (TreeStateObj ts) \<and>
     version ts = nextTreeStateVersion r \<and>
     nextTree st = None \<and>
     lookup (heap r') (graphsByVersion st) =
       Some (MapObj [(VNumber (nextTreeStateVersion r), VRef g)])"
proof -
  let ?n = "length (heap r)"
  let ?c = "nextTreeStateVersion r"
  let ?r' = "r\<lparr>nextTreeStateVersion := js_increment ?c,
             heap := heap r @ tree_layout ?c ?n @ store_layout (?n + 4) ?c (?n + 5)\<rparr>"
  have made: "makeEmptyStoreState r = Some (?n + 15, ?r')"
    by (rule makeEmptyStoreState_unfold)
  show ?thesis
    apply (rule exI [of _ "?n + 15"])
    apply (rule exI [of _ ?r'])
    apply (rule exI [of _ "\<lparr>currentTree = ?n + 4, nextTree = None,
         knownAtoms = ?n + 5, knownSelectors = ?n + 5 + 1,
         versionsUsedByComponent = ?n + 5 + 9,
         nodeToComponentSubscriptions = ?n + 5 + 6,
         graphsByVersion = ?n + 5 + 7,
         transactionSubscriptions = ?n + 5 + 2,
         nodeTransactionSubscriptions = ?n + 5 + 3,
         queuedComponentCallbacks = ?n + 5 + 4,
         suspendedComponentResolvers = ?n + 5 + 5\<rparr>"])
    apply (rule exI [of _ "\<lparr>version = ?c, transactionMetadata = ?n, dirtyAtoms = ?n + 1,
              atomValues = ?n + 2, nonvalidatedAtoms = ?n + 3\<rparr>"])
    apply (rule exI [of _ "?n + 5 + 8"])
    apply (simp add: made lookup_def nth_append store_layout_def tree_layout_def)
    done
qed

text \<open>In a module that was just loaded the version is 0.\<close>

theorem makeEmptyStoreState_initial_witness:
  "\<exists>s r' st ts g.
     makeEmptyStoreState (module_loaded []) = Some (s, r') \<and>
     lookup (heap r') s = Some (StoreStateObj st) \<and>
     lookup (heap r') (currentTree st) = Some (TreeStateObj ts) \<and>
     version ts = 0 \<and>
     nextTree st = None \<and>
     lookup (heap r') (graphsByVersion st) = Some (MapObj [(VNumber 0, VRef g)])"
proof -
  have c: "nextTreeStateVersion (module_loaded []) = 0"
    by (simp add: module_loaded_def)
  show ?thesis
    using makeEmptyStoreState_initial [of "module_loaded []"] unfolding c .
qed

text \<open>
  The claim as stated fails for the second store of a process: two calls after loading
  return the stores at addresses 15 and 31, and the current tree of the second has
  version 1.
\<close>

theorem second_store_version_counterexample:
  "fst (run [Call_makeEmptyStoreState, Call_makeEmptyStoreState] (module_loaded []))
     = [Returned_ref 15, Returned_ref 31] \<and>
   currentTree_version 31
     (snd (run [Call_makeEmptyStoreState, Call_makeEmptyStoreState] (module_loaded [])))
     = Some 1"
  by (simp add: makeEmptyStoreState_unfold module_loaded_def js_increment_def exact_limit_def
      currentTree_version_def store_at_def read_version_def lookup_def nth_append
      store_layout_def tree_layout_def)

subsection \<open>C3: the store made by \<^verbatim>\<open>makeStoreState\<close>\<close>

text \<open>
  C3. For a reference \<open>t\<close> to a tree state, \<^verbatim>\<open>makeStoreState(t)\<close> returns a store state
  whose \<^verbatim>\<open>currentTree\<close> is \<open>t\<close>, whose \<^verbatim>\<open>nextTree\<close> is null, whose eight other
  containers are empty, and whose \<^verbatim>\<open>graphsByVersion\<close> has exactly one entry: the version
  of \<open>t\<close>, mapped to an empty graph.
\<close>

theorem makeStoreState_fields:
  assumes "lookup (heap r) t = Some (TreeStateObj ts)"
  shows "\<exists>s r' st g.
      makeStoreState t r = Some (s, r') \<and>
      lookup (heap r') s = Some (StoreStateObj st) \<and>
      currentTree st = t \<and>
      nextTree st = None \<and>
      lookup (heap r') (knownAtoms st) = Some (SetObj []) \<and>
      lookup (heap r') (knownSelectors st) = Some (SetObj []) \<and>
      lookup (heap r') (versionsUsedByComponent st) = Some (MapObj []) \<and>
      lookup (heap r') (nodeToComponentSubscriptions st) = Some (MapObj []) \<and>
      lookup (heap r') (transactionSubscriptions st) = Some (MapObj []) \<and>
      lookup (heap r') (nodeTransactionSubscriptions st) = Some (MapObj []) \<and>
      lookup (heap r') (queuedComponentCallbacks st) = Some (ArrayObj []) \<and>
      lookup (heap r') (suspendedComponentResolvers st) = Some (SetObj []) \<and>
      lookup (heap r') (graphsByVersion st) = Some (MapObj [(VNumber (version ts), VRef g)]) \<and>
      lookup (heap r') g = Some (GraphObj emptyGraph)"
proof -
  let ?n = "length (heap r)"
  let ?r' = "r\<lparr>heap := heap r @ store_layout t (version ts) ?n\<rparr>"
  have run: "makeStoreState t r = Some (?n + 10, ?r')"
    using assms by (rule makeStoreState_unfold)
  show ?thesis
    apply (rule exI [of _ "?n + 10"])
    apply (rule exI [of _ ?r'])
    apply (rule exI [of _ "\<lparr>currentTree = t, nextTree = None,
         knownAtoms = ?n, knownSelectors = ?n + 1,
         versionsUsedByComponent = ?n + 9,
         nodeToComponentSubscriptions = ?n + 6,
         graphsByVersion = ?n + 7,
         transactionSubscriptions = ?n + 2,
         nodeTransactionSubscriptions = ?n + 3,
         queuedComponentCallbacks = ?n + 4,
         suspendedComponentResolvers = ?n + 5\<rparr>"])
    apply (rule exI [of _ "?n + 8"])
    apply (simp add: run lookup_def nth_append store_layout_def)
    done
qed

theorem makeStoreState_fields_witness:
  "lookup (heap example_runtime) 4 = Some (TreeStateObj example_tree) \<and>
   (\<exists>s r' st g.
      makeStoreState 4 example_runtime = Some (s, r') \<and>
      lookup (heap r') s = Some (StoreStateObj st) \<and>
      currentTree st = 4 \<and>
      nextTree st = None \<and>
      lookup (heap r') (knownAtoms st) = Some (SetObj []) \<and>
      lookup (heap r') (knownSelectors st) = Some (SetObj []) \<and>
      lookup (heap r') (versionsUsedByComponent st) = Some (MapObj []) \<and>
      lookup (heap r') (nodeToComponentSubscriptions st) = Some (MapObj []) \<and>
      lookup (heap r') (transactionSubscriptions st) = Some (MapObj []) \<and>
      lookup (heap r') (nodeTransactionSubscriptions st) = Some (MapObj []) \<and>
      lookup (heap r') (queuedComponentCallbacks st) = Some (ArrayObj []) \<and>
      lookup (heap r') (suspendedComponentResolvers st) = Some (SetObj []) \<and>
      lookup (heap r') (graphsByVersion st) = Some (MapObj [(VNumber 7, VRef g)]) \<and>
      lookup (heap r') g = Some (GraphObj emptyGraph))"
proof -
  have h: "lookup (heap example_runtime) 4 = Some (TreeStateObj example_tree)"
    by (simp add: example_runtime_def lookup_def)
  have v: "version example_tree = 7" by (simp add: example_tree_def)
  show ?thesis
    using h makeStoreState_fields [OF h] unfolding v by simp
qed

subsection \<open>C4: the tree made by \<^verbatim>\<open>makeEmptyTreeState\<close>\<close>

text \<open>
  C4 (amended). \<^verbatim>\<open>makeEmptyTreeState()\<close> returns a tree state whose dirty-atom set,
  atom-value map, map of atoms not yet validated and transaction metadata are empty
  and whose version is the value \<^verbatim>\<open>getNextTreeStateVersion\<close> returns. Apart from the
  heap, the runtime is left as one call of the allocator leaves it; on the heap, the
  objects that were there are unchanged and five are new (the tree state and its four
  containers). The version is fresh as long as the counter is below \<open>2 ^ 53\<close>: the
  allocator then moves past it, it is greater than every value an earlier call of the
  allocator returned below \<open>2 ^ 53\<close>, and greater than the version of every tree
  state that \<^verbatim>\<open>makeEmptyTreeState\<close> or \<^verbatim>\<open>makeEmptyStoreState\<close> made earlier while the
  counter was below \<open>2 ^ 53\<close>, whatever calls of the module came in between.
\<close>

theorem makeEmptyTreeState_result:
  "\<exists>t r' ts.
     makeEmptyTreeState r = (t, r') \<and>
     lookup (heap r') t = Some (TreeStateObj ts) \<and>
     lookup (heap r') (dirtyAtoms ts) = Some (SetObj []) \<and>
     lookup (heap r') (atomValues ts) = Some (MapObj []) \<and>
     lookup (heap r') (nonvalidatedAtoms ts) = Some (MapObj []) \<and>
     lookup (heap r') (transactionMetadata ts) = Some (PlainObj []) \<and>
     (version ts, r'\<lparr>heap := heap r\<rparr>) = getNextTreeStateVersion r \<and>
     take (length (heap r)) (heap r') = heap r \<and>
     length (heap r') = length (heap r) + 5 \<and>
     (nextTreeStateVersion r < exact_limit \<longrightarrow> nextTreeStateVersion r' = version ts + 1) \<and>
     (\<forall>r0 cs. nextTreeStateVersion r0 < exact_limit \<and>
         r = snd (run cs (snd (getNextTreeStateVersion r0))) \<longrightarrow>
         fst (getNextTreeStateVersion r0) < version ts) \<and>
     (\<forall>r0 c0 cs. (c0 = Call_makeEmptyTreeState \<or> c0 = Call_makeEmptyStoreState) \<and>
         nextTreeStateVersion r0 < exact_limit \<and>
         r = snd (run cs (snd (exec c0 r0))) \<longrightarrow>
         (\<exists>t0 ts0. made_tree c0 (fst (exec c0 r0)) r' = Some t0 \<and>
            tree_at r' t0 = Some ts0 \<and> t0 \<noteq> t \<and> version ts0 < version ts))"
proof -
  let ?n = "length (heap r)"
  let ?c = "nextTreeStateVersion r"
  let ?r' = "r\<lparr>nextTreeStateVersion := js_increment ?c, heap := heap r @ tree_layout ?c ?n\<rparr>"
  let ?ts = "\<lparr>version = ?c, transactionMetadata = ?n, dirtyAtoms = ?n + 1,
              atomValues = ?n + 2, nonvalidatedAtoms = ?n + 3\<rparr>"
  have made: "makeEmptyTreeState r = (?n + 4, ?r')"
    by (rule makeEmptyTreeState_unfold)
  have objs: "lookup (heap ?r') (?n + 4) = Some (TreeStateObj ?ts)"
    "lookup (heap ?r') (dirtyAtoms ?ts) = Some (SetObj [])"
    "lookup (heap ?r') (atomValues ?ts) = Some (MapObj [])"
    "lookup (heap ?r') (nonvalidatedAtoms ?ts) = Some (MapObj [])"
    "lookup (heap ?r') (transactionMetadata ?ts) = Some (PlainObj [])"
    by (simp_all add: lookup_def nth_append tree_layout_def)
  have alloc: "(version ?ts, ?r'\<lparr>heap := heap r\<rparr>) = getNextTreeStateVersion r"
    by (simp add: getNextTreeStateVersion_def)
  have frame: "take ?n (heap ?r') = heap r" "length (heap ?r') = ?n + 5"
    by (simp_all add: length_tree_layout)
  have advanced: "?c < exact_limit \<longrightarrow> nextTreeStateVersion ?r' = version ?ts + 1"
    by (simp add: js_increment_below)
  have direct: "\<forall>r0 cs. nextTreeStateVersion r0 < exact_limit \<and>
         r = snd (run cs (snd (getNextTreeStateVersion r0))) \<longrightarrow>
         fst (getNextTreeStateVersion r0) < version ?ts"
  proof (intro allI impI, elim conjE)
    fix r0 cs
    assume small: "nextTreeStateVersion r0 < exact_limit"
      and r: "r = snd (run cs (snd (getNextTreeStateVersion r0)))"
    have "fst (getNextTreeStateVersion r0) < nextTreeStateVersion (snd (getNextTreeStateVersion r0))"
      using small by (simp add: getNextTreeStateVersion_def js_increment_below)
    also have "\<dots> \<le> ?c"
      using run_effect [of "snd (getNextTreeStateVersion r0)" cs] by (simp add: r)
    finally show "fst (getNextTreeStateVersion r0) < version ?ts" by simp
  qed
  have trees: "\<forall>r0 c0 cs. (c0 = Call_makeEmptyTreeState \<or> c0 = Call_makeEmptyStoreState) \<and>
         nextTreeStateVersion r0 < exact_limit \<and>
         r = snd (run cs (snd (exec c0 r0))) \<longrightarrow>
         (\<exists>t0 ts0. made_tree c0 (fst (exec c0 r0)) ?r' = Some t0 \<and>
            tree_at ?r' t0 = Some ts0 \<and> t0 \<noteq> ?n + 4 \<and> version ts0 < version ?ts)"
  proof (intro allI impI, elim conjE)
    fix r0 c0 cs
    assume c0: "c0 = Call_makeEmptyTreeState \<or> c0 = Call_makeEmptyStoreState"
      and small: "nextTreeStateVersion r0 < exact_limit"
      and r: "r = snd (run cs (snd (exec c0 r0)))"
    from tree_made_later_is_newer [OF c0 small r] made
    show "\<exists>t0 ts0. made_tree c0 (fst (exec c0 r0)) ?r' = Some t0 \<and>
            tree_at ?r' t0 = Some ts0 \<and> t0 \<noteq> ?n + 4 \<and> version ts0 < version ?ts"
      by auto
  qed
  show ?thesis
    apply (rule exI [of _ "?n + 4"])
    apply (rule exI [of _ ?r'])
    apply (rule exI [of _ ?ts])
    apply (intro conjI)
    apply (rule made)
    apply (rule objs)+
    apply (rule alloc)
    apply (rule frame)+
    apply (rule advanced)
    apply (rule direct)
    apply (rule trees)
    done
qed

text \<open>
  An example: the allocator is called once, then a store is made, then the tree. The
  tree gets version 2, the counter moves to 3, and both the value 0 returned by the
  allocator and the version of the store's tree are smaller.
\<close>

theorem makeEmptyTreeState_result_witness:
  "nextTreeStateVersion (module_loaded []) < exact_limit \<and>
   nextTreeStateVersion (snd (getNextTreeStateVersion (module_loaded []))) < exact_limit \<and>
   nextTreeStateVersion
     (snd (exec Call_makeEmptyStoreState (snd (getNextTreeStateVersion (module_loaded [])))))
     < exact_limit \<and>
   (\<exists>t r' ts.
      makeEmptyTreeState
        (snd (exec Call_makeEmptyStoreState (snd (getNextTreeStateVersion (module_loaded [])))))
        = (t, r') \<and>
      lookup (heap r') t = Some (TreeStateObj ts) \<and>
      lookup (heap r') (dirtyAtoms ts) = Some (SetObj []) \<and>
      lookup (heap r') (atomValues ts) = Some (MapObj []) \<and>
      lookup (heap r') (nonvalidatedAtoms ts) = Some (MapObj []) \<and>
      lookup (heap r') (transactionMetadata ts) = Some (PlainObj []) \<and>
      version ts = 2 \<and>
      nextTreeStateVersion r' = 3 \<and>
      fst (getNextTreeStateVersion (module_loaded [])) < version ts \<and>
      (\<exists>t0 ts0.
         made_tree Call_makeEmptyStoreState
           (fst (exec Call_makeEmptyStoreState (snd (getNextTreeStateVersion (module_loaded [])))))
           r' = Some t0 \<and>
         tree_at r' t0 = Some ts0 \<and> t0 \<noteq> t \<and> version ts0 < version ts))"
proof -
  let ?init = "module_loaded []"
  let ?mid = "snd (getNextTreeStateVersion ?init)"
  let ?now = "snd (exec Call_makeEmptyStoreState ?mid)"
  have s0: "nextTreeStateVersion ?init < exact_limit"
    and s1: "nextTreeStateVersion ?mid < exact_limit"
    and c: "nextTreeStateVersion ?now = 2"
    by (simp_all add: module_loaded_def getNextTreeStateVersion_def makeEmptyStoreState_unfold
        js_increment_def exact_limit_def)
  have s: "nextTreeStateVersion ?now < exact_limit"
    unfolding c by (simp add: exact_limit_def)
  have via_get: "?now = snd (run [Call_makeEmptyStoreState] ?mid)"
    by (simp add: split_def Let_def)
  have via_store: "?now = snd (run [] (snd (exec Call_makeEmptyStoreState ?mid)))"
    by simp
  obtain t r' ts where made: "makeEmptyTreeState ?now = (t, r')"
    and objs: "lookup (heap r') t = Some (TreeStateObj ts)"
      "lookup (heap r') (dirtyAtoms ts) = Some (SetObj [])"
      "lookup (heap r') (atomValues ts) = Some (MapObj [])"
      "lookup (heap r') (nonvalidatedAtoms ts) = Some (MapObj [])"
      "lookup (heap r') (transactionMetadata ts) = Some (PlainObj [])"
    and alloc: "(version ts, r'\<lparr>heap := heap ?now\<rparr>) = getNextTreeStateVersion ?now"
    and advanced: "nextTreeStateVersion ?now < exact_limit \<longrightarrow> nextTreeStateVersion r' = version ts + 1"
    and direct: "\<forall>r0 cs. nextTreeStateVersion r0 < exact_limit \<and>
         ?now = snd (run cs (snd (getNextTreeStateVersion r0))) \<longrightarrow>
         fst (getNextTreeStateVersion r0) < version ts"
    and trees: "\<forall>r0 c0 cs. (c0 = Call_makeEmptyTreeState \<or> c0 = Call_makeEmptyStoreState) \<and>
         nextTreeStateVersion r0 < exact_limit \<and>
         ?now = snd (run cs (snd (exec c0 r0))) \<longrightarrow>
         (\<exists>t0 ts0. made_tree c0 (fst (exec c0 r0)) r' = Some t0 \<and>
            tree_at r' t0 = Some ts0 \<and> t0 \<noteq> t \<and> version ts0 < version ts)"
    using makeEmptyTreeState_result [of ?now] by blast
  have returned: "fst (getNextTreeStateVersion x) = nextTreeStateVersion x" for x
    by (simp add: getNextTreeStateVersion_def)
  from alloc have "version ts = fst (getNextTreeStateVersion ?now)"
    by (metis fst_conv)
  then have v: "version ts = 2"
    unfolding returned c .
  from advanced s v have n: "nextTreeStateVersion r' = 3" by simp
  from direct s0 via_get have d: "fst (getNextTreeStateVersion ?init) < version ts"
    by blast
  from trees s1 via_store
  have e: "\<exists>t0 ts0. made_tree Call_makeEmptyStoreState (fst (exec Call_makeEmptyStoreState ?mid)) r' = Some t0 \<and>
            tree_at r' t0 = Some ts0 \<and> t0 \<noteq> t \<and> version ts0 < version ts"
    by blast
  from s0 s1 s made objs v n d e show ?thesis
    by blast
qed

text \<open>
  The claim as stated fails once the counter has reached \<open>2 ^ 53\<close>: the allocator
  returns \<open>2 ^ 53\<close>, and the tree state made next gets the version \<open>2 ^ 53\<close>
  again and leaves the counter where it was.
\<close>

theorem tree_version_not_fresh_counterexample:
  "fst (getNextTreeStateVersion saturated_runtime) = exact_limit \<and>
   tree_at (snd (makeEmptyTreeState (snd (getNextTreeStateVersion saturated_runtime))))
       (fst (makeEmptyTreeState (snd (getNextTreeStateVersion saturated_runtime))))
     = Some \<lparr>version = exact_limit, transactionMetadata = 0, dirtyAtoms = 1,
              atomValues = 2, nonvalidatedAtoms = 3\<rparr> \<and>
   nextTreeStateVersion (snd (makeEmptyTreeState (snd (getNextTreeStateVersion saturated_runtime))))
     = nextTreeStateVersion (snd (getNextTreeStateVersion saturated_runtime))"
  by (simp add: saturated_runtime_eq getNextTreeStateVersion_def makeEmptyTreeState_unfold
      js_increment_def tree_at_def lookup_def nth_append tree_layout_def)

subsection \<open>C5: versions are not reused\<close>

text \<open>
  C5 (amended). Take two calls that make a tree state, each a call of
  \<^verbatim>\<open>makeEmptyTreeState\<close> or of \<^verbatim>\<open>makeEmptyStoreState\<close>, with any calls of the module
  between them. If the counter is below \<open>2 ^ 53\<close> at the first call, the two tree
  states are different objects and the second has the greater version.
\<close>

theorem tree_versions_never_reused:
  assumes "c1 = Call_makeEmptyTreeState \<or> c1 = Call_makeEmptyStoreState"
    and "c2 = Call_makeEmptyTreeState \<or> c2 = Call_makeEmptyStoreState"
    and "nextTreeStateVersion r < exact_limit"
  shows "let (o1, r1) = exec c1 r; (outs, r2) = run cs r1; (o2, r3) = exec c2 r2
         in \<exists>t1 t2 ts1 ts2.
              made_tree c1 o1 r3 = Some t1 \<and> made_tree c2 o2 r3 = Some t2 \<and>
              tree_at r3 t1 = Some ts1 \<and> tree_at r3 t2 = Some ts2 \<and>
              t1 \<noteq> t2 \<and> version ts1 < version ts2"
proof -
  let ?r1 = "snd (exec c1 r)"
  let ?r2 = "snd (run cs ?r1)"
  let ?r3 = "snd (exec c2 ?r2)"
  obtain t1 ts1 where m1: "made_tree c1 (fst (exec c1 r)) ?r1 = Some t1"
    and a1: "tree_at ?r1 t1 = Some ts1" and v1: "version ts1 = nextTreeStateVersion r"
    and n1: "nextTreeStateVersion ?r1 = js_increment (nextTreeStateVersion r)"
    using exec_makes_tree [OF assms(1), of r] by blast
  obtain t2 ts2 where m2: "made_tree c2 (fst (exec c2 ?r2)) ?r3 = Some t2"
    and a2: "tree_at ?r3 t2 = Some ts2" and v2: "version ts2 = nextTreeStateVersion ?r2"
    and f2: "length (heap ?r2) \<le> t2"
    using exec_makes_tree [OF assms(2), of ?r2] by blast
  have p12: "prefix (heap ?r1) (heap ?r2)" and c12: "nextTreeStateVersion ?r1 \<le> nextTreeStateVersion ?r2"
    using run_effect [of ?r1 cs] by simp_all
  have p23: "prefix (heap ?r2) (heap ?r3)"
    using exec_effect [of ?r2 c2] by simp
  have p13: "prefix (heap ?r1) (heap ?r3)"
    using p12 p23 by (rule prefix_order.order_trans)
  have m1': "made_tree c1 (fst (exec c1 r)) ?r3 = Some t1"
    using p13 m1 by (rule made_tree_prefix)
  have a1': "tree_at ?r3 t1 = Some ts1"
    using p13 a1 by (rule tree_at_prefix)
  have "t1 < length (heap ?r1)" using a1 by (rule tree_at_SomeD)
  also have "\<dots> \<le> length (heap ?r2)" using p12 by (rule prefix_length_le)
  finally have ne: "t1 \<noteq> t2" using f2 by simp
  have "version ts1 < nextTreeStateVersion ?r1"
    using assms(3) by (simp add: v1 n1 js_increment_below)
  with c12 have lt: "version ts1 < version ts2" by (simp add: v2)
  from m1' m2 a1' a2 ne lt show ?thesis
    by (auto simp: split_def Let_def)
qed

theorem tree_versions_never_reused_witness:
  "nextTreeStateVersion (module_loaded []) < exact_limit \<and>
   (let (o1, r1) = exec Call_makeEmptyStoreState (module_loaded []);
        (outs, r2) = run [Call_getNextTreeStateVersion] r1;
        (o2, r3) = exec Call_makeEmptyTreeState r2
    in \<exists>t1 t2 ts1 ts2.
         made_tree Call_makeEmptyStoreState o1 r3 = Some t1 \<and>
         made_tree Call_makeEmptyTreeState o2 r3 = Some t2 \<and>
         tree_at r3 t1 = Some ts1 \<and> tree_at r3 t2 = Some ts2 \<and>
         t1 \<noteq> t2 \<and> version ts1 < version ts2)"
proof -
  have small: "nextTreeStateVersion (module_loaded []) < exact_limit"
    by (simp add: module_loaded_def exact_limit_def)
  from small tree_versions_never_reused [OF _ _ small, of Call_makeEmptyStoreState
      Call_makeEmptyTreeState "[Call_getNextTreeStateVersion]"]
  show ?thesis by simp
qed

text \<open>
  The claim as stated fails once the counter has reached \<open>2 ^ 53\<close>: the two tree
  states made next, at addresses 4 and 9, both have version \<open>2 ^ 53\<close>.
\<close>

theorem version_reused_counterexample:
  "fst (run [Call_makeEmptyTreeState, Call_makeEmptyTreeState] saturated_runtime)
      = [Returned_ref 4, Returned_ref 9] \<and>
   tree_at (snd (run [Call_makeEmptyTreeState, Call_makeEmptyTreeState] saturated_runtime)) 4
      = Some \<lparr>version = exact_limit, transactionMetadata = 0, dirtyAtoms = 1,
               atomValues = 2, nonvalidatedAtoms = 3\<rparr> \<and>
   tree_at (snd (run [Call_makeEmptyTreeState, Call_makeEmptyTreeState] saturated_runtime)) 9
      = Some \<lparr>version = exact_limit, transactionMetadata = 5, dirtyAtoms = 6,
               atomValues = 7, nonvalidatedAtoms = 8\<rparr>"
  by (simp add: saturated_runtime_eq makeEmptyTreeState_unfold js_increment_def
      tree_at_def lookup_def nth_append tree_layout_def)

subsection \<open>C6: the next tree is newer than the current tree\<close>

text \<open>
  C6. In every runtime reached from a freshly loaded module by calls of the
  constructors and of the allocator, by \<^verbatim>\<open>replaceState\<close>, by commits and by updates of
  the bookkeeping containers, every store state on the heap satisfies the invariant:
  when its \<^verbatim>\<open>nextTree\<close> is present, the version of \<^verbatim>\<open>nextTree\<close> is strictly greater
  than the version of \<^verbatim>\<open>currentTree\<close>. The constructors establish it by setting
  \<^verbatim>\<open>nextTree\<close> to null.
\<close>

theorem nextTree_newer_reachable:
  assumes "reachable r" and "store_at r s = Some st"
  shows "nextTree_newer r st"
  using reachable_stores_ok [OF assms(1)] assms(2) by (simp add: stores_ok_def)

theorem nextTree_newer_reachable_witness:
  "\<exists>r st.
     replaceState (\<lambda>t. t) 15 (snd (exec Call_makeEmptyStoreState (module_loaded []))) = Inr r \<and>
     reachable r \<and>
     store_at r 15 = Some st \<and>
     nextTree st = Some 16 \<and>
     read_version (currentTree st) r = Some 0 \<and>
     read_version 16 r = Some 1 \<and>
     nextTree_newer r st"
proof -
  let ?r1 = "snd (exec Call_makeEmptyStoreState (module_loaded []))"
  have r0: "reachable (module_loaded [])"
    by (rule reachable.loaded) simp
  have r1: "reachable ?r1"
    using r0 by (rule reachable.called)
  obtain r where step: "replaceState (\<lambda>t. t) 15 ?r1 = Inr r"
    and st: "store_at r 15 = Some
       \<lparr>currentTree = 4, nextTree = Some 16, knownAtoms = 5, knownSelectors = 6,
        versionsUsedByComponent = 14, nodeToComponentSubscriptions = 11,
        graphsByVersion = 12, transactionSubscriptions = 7,
        nodeTransactionSubscriptions = 8, queuedComponentCallbacks = 9,
        suspendedComponentResolvers = 10\<rparr>"
    and v0: "read_version 4 r = Some 0" and v1: "read_version 16 r = Some 1"
    by (simp add: replaceState_def makeEmptyStoreState_unfold module_loaded_def
        js_increment_def exact_limit_def getNextTreeStateVersion_def alloc_def
        store_at_def tree_at_def read_version_def lookup_def nth_append
        store_layout_def tree_layout_def)
  have r2: "reachable r"
    using r1 step by (rule reachable.replaced)
  from nextTree_newer_reachable [OF r2 st] step r2 st v0 v1 show ?thesis
    by simp
qed

subsection \<open>C7: tree states are not mutated\<close>

text \<open>
  C7. No sequence of calls of this module changes a tree state that is on the heap, or
  the objects its \<^verbatim>\<open>atomValues\<close>, \<^verbatim>\<open>dirtyAtoms\<close> and \<^verbatim>\<open>nonvalidatedAtoms\<close> refer to:
  reading them after the calls gives what reading them before gave, also when
  \<^verbatim>\<open>makeStoreState\<close> was applied to that tree state. The calls only append to the heap.
\<close>

theorem tree_state_never_mutated:
  assumes "lookup (heap r) t = Some (TreeStateObj ts)"
    and "lookup (heap r) (atomValues ts) = Some av"
    and "lookup (heap r) (dirtyAtoms ts) = Some da"
    and "lookup (heap r) (nonvalidatedAtoms ts) = Some nv"
  shows "lookup (heap (snd (run cs r))) t = Some (TreeStateObj ts) \<and>
         lookup (heap (snd (run cs r))) (atomValues ts) = Some av \<and>
         lookup (heap (snd (run cs r))) (dirtyAtoms ts) = Some da \<and>
         lookup (heap (snd (run cs r))) (nonvalidatedAtoms ts) = Some nv \<and>
         prefix (heap r) (heap (snd (run cs r)))"
proof -
  have p: "prefix (heap r) (heap (snd (run cs r)))"
    using run_effect [of r cs] by simp
  from p assms show ?thesis
    by (simp add: lookup_prefix)
qed

theorem tree_state_never_mutated_witness:
  "lookup (heap example_runtime) 4 = Some (TreeStateObj example_tree) \<and>
   lookup (heap example_runtime) (atomValues example_tree)
      = Some (MapObj [(VString ''a'', VNumber 1)]) \<and>
   lookup (heap example_runtime) (dirtyAtoms example_tree) = Some (SetObj [VString ''a'']) \<and>
   lookup (heap example_runtime) (nonvalidatedAtoms example_tree) = Some (MapObj []) \<and>
   lookup (heap (snd (run [Call_makeStoreState 4, Call_makeEmptyStoreState] example_runtime))) 4
      = Some (TreeStateObj example_tree) \<and>
   lookup (heap (snd (run [Call_makeStoreState 4, Call_makeEmptyStoreState] example_runtime)))
      (atomValues example_tree) = Some (MapObj [(VString ''a'', VNumber 1)]) \<and>
   lookup (heap (snd (run [Call_makeStoreState 4, Call_makeEmptyStoreState] example_runtime)))
      (dirtyAtoms example_tree) = Some (SetObj [VString ''a'']) \<and>
   lookup (heap (snd (run [Call_makeStoreState 4, Call_makeEmptyStoreState] example_runtime)))
      (nonvalidatedAtoms example_tree) = Some (MapObj [])"
proof -
  have h: "lookup (heap example_runtime) 4 = Some (TreeStateObj example_tree)"
    and av: "lookup (heap example_runtime) (atomValues example_tree)
      = Some (MapObj [(VString ''a'', VNumber 1)])"
    and da: "lookup (heap example_runtime) (dirtyAtoms example_tree) = Some (SetObj [VString ''a''])"
    and nv: "lookup (heap example_runtime) (nonvalidatedAtoms example_tree) = Some (MapObj [])"
    by (simp_all add: example_runtime_def example_tree_def lookup_def)
  from h av da nv
    tree_state_never_mutated [OF h av da nv, of "[Call_makeStoreState 4, Call_makeEmptyStoreState]"]
  show ?thesis by blast
qed

subsection \<open>C8: \<^verbatim>\<open>makeEmptyStoreState\<close> is the composition of the two constructors\<close>

text \<open>
  C8. From every runtime, \<^verbatim>\<open>makeEmptyStoreState()\<close> returns what
  \<^verbatim>\<open>makeStoreState\<close> returns for the tree state made by \<^verbatim>\<open>makeEmptyTreeState()\<close> from
  that runtime, in the runtime \<^verbatim>\<open>makeEmptyTreeState\<close> leaves; and both return.
\<close>

theorem makeEmptyStoreState_composition:
  "\<exists>t r1 s r2.
     makeEmptyTreeState r = (t, r1) \<and>
     makeStoreState t r1 = Some (s, r2) \<and>
     makeEmptyStoreState r = Some (s, r2)"
proof -
  obtain t r1 where tree: "makeEmptyTreeState r = (t, r1)"
    by (cases "makeEmptyTreeState r")
  obtain s r2 where store: "makeEmptyStoreState r = Some (s, r2)"
    using makeEmptyStoreState_unfold [of r] by blast
  from tree store have "makeStoreState t r1 = Some (s, r2)"
    by (simp add: makeEmptyStoreState_def)
  with tree store show ?thesis by blast
qed

theorem makeEmptyStoreState_composition_witness:
  "\<exists>r1 r2.
     makeEmptyTreeState (module_loaded []) = (4, r1) \<and>
     makeStoreState 4 r1 = Some (15, r2) \<and>
     makeEmptyStoreState (module_loaded []) = Some (15, r2)"
proof -
  have tree: "fst (makeEmptyTreeState (module_loaded [])) = 4"
    by (simp add: makeEmptyTreeState_unfold module_loaded_def)
  have store: "map_option fst (makeEmptyStoreState (module_loaded [])) = Some 15"
    by (simp add: makeEmptyStoreState_unfold module_loaded_def)
  from makeEmptyStoreState_composition [of "module_loaded []"] tree store
  show ?thesis by auto
qed

subsection \<open>C9: the allocator counts\<close>

text \<open>
  C9 (amended). If a call of \<^verbatim>\<open>getNextTreeStateVersion\<close> returns \<open>v < 2 ^ 53\<close>, the
  call right after it returns \<open>v + 1\<close>; so the first \<open>n\<close> calls after the module is
  loaded return \<open>0, 1, ..., n - 1\<close>, for every \<open>n\<close> up to \<open>2 ^ 53 + 1\<close>.
\<close>

theorem getNextTreeStateVersion_consecutive:
  "(nextTreeStateVersion r < exact_limit \<longrightarrow>
      fst (getNextTreeStateVersion (snd (getNextTreeStateVersion r)))
        = fst (getNextTreeStateVersion r) + 1) \<and>
   (n \<le> exact_limit + 1 \<longrightarrow>
      fst (run (replicate n Call_getNextTreeStateVersion) (module_loaded h))
        = map Returned_version [0 ..< n])"
proof -
  have two: "fst (getNextTreeStateVersion (snd (getNextTreeStateVersion r)))
        = fst (getNextTreeStateVersion r) + 1" if "nextTreeStateVersion r < exact_limit"
    using that by (simp add: getNextTreeStateVersion_def js_increment_below)
  have many: "fst (run (replicate n Call_getNextTreeStateVersion) (module_loaded h))
        = map Returned_version [0 ..< n]" if "n \<le> exact_limit + 1"
  proof -
    from that have "nextTreeStateVersion (module_loaded h) \<le> exact_limit"
      and "nextTreeStateVersion (module_loaded h) + n \<le> exact_limit + 1"
      by (simp_all add: module_loaded_def)
    from run_getNext_replicate [OF this] show ?thesis
      by (simp add: module_loaded_def)
  qed
  from two many show ?thesis by blast
qed

theorem getNextTreeStateVersion_consecutive_witness:
  "nextTreeStateVersion (module_loaded []) < exact_limit \<and>
   fst (getNextTreeStateVersion (snd (getNextTreeStateVersion (module_loaded [])))) = 1 \<and>
   (3::nat) \<le> exact_limit + 1 \<and>
   fst (run (replicate 3 Call_getNextTreeStateVersion) (module_loaded []))
     = [Returned_version 0, Returned_version 1, Returned_version 2]"
proof -
  have small: "nextTreeStateVersion (module_loaded []) < exact_limit"
    and three: "(3::nat) \<le> exact_limit + 1"
    by (simp_all add: module_loaded_def exact_limit_def)
  have first: "fst (getNextTreeStateVersion (module_loaded [])) = 0"
    by (simp add: getNextTreeStateVersion_def module_loaded_def)
  have upt: "map Returned_version [0 ..< 3]
      = [Returned_version 0, Returned_version 1, Returned_version 2]"
    by (simp add: upt_rec)
  from getNextTreeStateVersion_consecutive [of "module_loaded []" 3 "[]"] small three
  show ?thesis
    unfolding first upt by simp
qed

text \<open>
  At the call that returns \<open>2 ^ 53\<close> the claim as stated fails: the next call
  returns \<open>2 ^ 53\<close> again, not \<open>2 ^ 53 + 1\<close>.
\<close>

theorem not_consecutive_counterexample:
  "fst (getNextTreeStateVersion (snd (getNextTreeStateVersion saturated_runtime)))
     \<noteq> fst (getNextTreeStateVersion saturated_runtime) + 1"
  by (simp add: saturated_runtime_eq getNextTreeStateVersion_def js_increment_def)

subsection \<open>C10: \<^verbatim>\<open>makeStoreState\<close> only constructs\<close>

text \<open>
  C10. For a reference \<open>t\<close> to a tree state, \<^verbatim>\<open>makeStoreState(t)\<close> leaves the allocator's
  counter, and everything else but the heap, unchanged; every object that was on the
  heap is unchanged, the tree state at \<open>t\<close> among them; the store's \<^verbatim>\<open>currentTree\<close> is
  the reference \<open>t\<close> itself, and no tree state is among the new objects, so \<open>t\<close> was not
  copied.
\<close>

theorem makeStoreState_frame:
  assumes "lookup (heap r) t = Some (TreeStateObj ts)"
  shows "\<exists>s r' st.
      makeStoreState t r = Some (s, r') \<and>
      nextTreeStateVersion r' = nextTreeStateVersion r \<and>
      r'\<lparr>heap := heap r\<rparr> = r \<and>
      take (length (heap r)) (heap r') = heap r \<and>
      lookup (heap r') t = Some (TreeStateObj ts) \<and>
      lookup (heap r') s = Some (StoreStateObj st) \<and>
      currentTree st = t \<and>
      (\<forall>a ts'. lookup (heap r') a = Some (TreeStateObj ts') \<longrightarrow> a < length (heap r))"
proof -
  let ?n = "length (heap r)"
  let ?new = "store_layout t (version ts) ?n"
  let ?r' = "r\<lparr>heap := heap r @ ?new\<rparr>"
  have made: "makeStoreState t r = Some (?n + 10, ?r')"
    using assms by (rule makeStoreState_unfold)
  have same: "nextTreeStateVersion ?r' = nextTreeStateVersion r" "?r'\<lparr>heap := heap r\<rparr> = r"
    "take ?n (heap ?r') = heap r"
    by simp_all
  have t_old: "lookup (heap ?r') t = Some (TreeStateObj ts)"
    using assms lookup_SomeD [OF assms] by (simp add: lookup_append_old)
  have store: "lookup (heap ?r') (?n + 10) = Some (?new ! 10)"
    by (simp add: lookup_append_new length_store_layout)
  have cur: "\<exists>st. ?new ! 10 = StoreStateObj st \<and> currentTree st = t"
    by (simp add: store_layout_def)
  have no_copy: "\<forall>a ts'. lookup (heap ?r') a = Some (TreeStateObj ts') \<longrightarrow> a < ?n"
  proof (intro allI impI)
    fix a ts'
    assume "lookup (heap ?r') a = Some (TreeStateObj ts')"
    then have "lookup (heap r) a = Some (TreeStateObj ts') \<or> TreeStateObj ts' \<in> set ?new"
      using lookup_append_cases [of "heap r" ?new a] by auto
    then show "a < ?n"
      using store_layout_no_tree lookup_SomeD by blast
  qed
  from cur obtain st where "?new ! 10 = StoreStateObj st" "currentTree st = t" by blast
  with made same t_old store no_copy show ?thesis by auto
qed

theorem makeStoreState_frame_witness:
  "lookup (heap example_runtime) 4 = Some (TreeStateObj example_tree) \<and>
   (\<exists>s r' st.
      makeStoreState 4 example_runtime = Some (s, r') \<and>
      nextTreeStateVersion r' = 8 \<and>
      lookup (heap r') 4 = Some (TreeStateObj example_tree) \<and>
      lookup (heap r') s = Some (StoreStateObj st) \<and>
      currentTree st = 4)"
proof -
  have h: "lookup (heap example_runtime) 4 = Some (TreeStateObj example_tree)"
    by (simp add: example_runtime_def lookup_def)
  have c: "nextTreeStateVersion example_runtime = 8"
    by (simp add: example_runtime_def)
  show ?thesis
    using h makeStoreState_frame [OF h] unfolding c by blast
qed

end
